theory Spec2Isabelle
  imports Complex_Main "HOL-Library.Sublist"
begin

section \<open>The TurkBBIai backend (app.py): data model\<close>

text \<open>
  The module keeps its configuration in globals that are set once when it is loaded, and
  its run-time state in three further globals. The configuration is the record
  \<open>config\<close>; the state is the record \<open>state\<close>, passed to every handler and returned
  updated. Strings are lists of characters; a character stands for a code point below 256.
  \<open>time.time()\<close> is a parameter of type \<open>real\<close> (seconds), \<open>datetime.now()\<close> a
  parameter of type \<open>int\<close> (microseconds), the random digits, the SMTP relay and the
  upstream services are parameters as well. Log lines are not modelled.
\<close>

type_synonym datetime = int

record config =
  API_KEYS :: "string list"
  GMAIL_SENDER :: "string option"
  GMAIL_APP_PASSWORD :: "string option"
  CREATOR_EMAIL :: string
  RATE_LIMIT_CHAT :: int
  RATE_LIMIT_IMAGE :: int
  RATE_LIMIT_EMAIL :: int

record verification_record =
  code :: string
  expires_at :: datetime

record state =
  current_key_index :: nat
  verification_codes :: "string \<rightharpoonup> verification_record"
  last_request_time :: "string \<rightharpoonup> (string \<rightharpoonup> real)"

text \<open>
  A request as the handlers see it: the \<open>X-Forwarded-For\<close> header, the peer address and
  the JSON body (\<open>None\<close> when there is none; otherwise an object whose values are
  strings, as an association list with distinct keys).
\<close>

record request =
  x_forwarded_for :: "string option"
  remote_addr :: "string option"
  json :: "(string \<times> string) list option"

text \<open>Every \<open>return jsonify(...)\<close> of the source is one constructor.\<close>

datatype reply =
    EmailRateLimited int
  | EmailRequired
  | InvalidEmail
  | EmailNotConfigured
  | CodeSent
  | EmailSendFailed
  | InvalidRequest
  | EmailAndCodeRequired
  | InvalidOrExpiredCode
  | CodeExpired
  | WrongCode
  | VerifySuccess bool
  | ChatRateLimited int
  | MessageRequired
  | EmptyMessage
  | ChatApiError
  | ChatSuccess string
  | ChatTimeout
  | ChatUnexpected
  | ChatExhausted
  | ImageRateLimited int
  | PromptRequired
  | EmptyPrompt
  | ImageLoading
  | ImageFailed
  | ImageSuccess string
  | ImageTimeout
  | ImageUnexpected

fun status_code :: "reply \<Rightarrow> nat" where
  "status_code (EmailRateLimited _) = 429"
| "status_code EmailRequired = 400"
| "status_code InvalidEmail = 400"
| "status_code EmailNotConfigured = 500"
| "status_code CodeSent = 200"
| "status_code EmailSendFailed = 500"
| "status_code InvalidRequest = 400"
| "status_code EmailAndCodeRequired = 400"
| "status_code InvalidOrExpiredCode = 400"
| "status_code CodeExpired = 400"
| "status_code WrongCode = 400"
| "status_code (VerifySuccess _) = 200"
| "status_code (ChatRateLimited _) = 429"
| "status_code MessageRequired = 400"
| "status_code EmptyMessage = 400"
| "status_code ChatApiError = 500"
| "status_code (ChatSuccess _) = 200"
| "status_code ChatTimeout = 500"
| "status_code ChatUnexpected = 500"
| "status_code ChatExhausted = 503"
| "status_code (ImageRateLimited _) = 429"
| "status_code PromptRequired = 400"
| "status_code EmptyPrompt = 400"
| "status_code ImageLoading = 503"
| "status_code ImageFailed = 500"
| "status_code (ImageSuccess _) = 200"
| "status_code ImageTimeout = 500"
| "status_code ImageUnexpected = 500"

section \<open>String helpers of the Python library\<close>

text \<open>\<open>str.isspace\<close> on one character, for code points below 256.\<close>

definition is_space :: "char \<Rightarrow> bool" where
  "is_space c = ((of_char c :: nat) \<in> {9, 10, 11, 12, 13, 28, 29, 30, 31, 32, 133, 160})"

definition strip :: "string \<Rightarrow> string" where
  "strip s = rev (dropWhile is_space (rev (dropWhile is_space s)))"

text \<open>\<open>str.lower\<close>, for code points below 256: A-Z and the accented capitals move by 32.\<close>

definition lower_char :: "char \<Rightarrow> char" where
  "lower_char c =
     (let n = (of_char c :: nat)
      in if (65 \<le> n \<and> n \<le> 90) \<or> (192 \<le> n \<and> n \<le> 214) \<or> (216 \<le> n \<and> n \<le> 222)
         then char_of (n + 32) else c)"

definition lower :: "string \<Rightarrow> string" where
  "lower s = map lower_char s"

text \<open>\<open>int(x)\<close> on a float truncates towards zero.\<close>

definition py_int :: "real \<Rightarrow> int" where
  "py_int x = (if 0 \<le> x then \<lfloor>x\<rfloor> else \<lceil>x\<rceil>)"

text \<open>
  \<open>s.replace(old, new)\<close>: the occurrences of \<open>old\<close> are found from the left and do not
  overlap; an empty \<open>old\<close> matches before every character and at the end.
\<close>

function str_replace :: "'a list \<Rightarrow> 'a list \<Rightarrow> 'a list \<Rightarrow> 'a list" where
  "str_replace old new s =
     (if old = [] then new @ concat (map (\<lambda>c. c # new) s)
      else if s = [] then []
      else if prefix old s then new @ str_replace old new (drop (length old) s)
      else hd s # str_replace old new (tl s))"
  by pat_completeness auto
termination
  by (relation "measure (\<lambda>(old, new, s). length s)") auto

declare str_replace.simps [simp del]

section \<open>Helper functions of the module\<close>

text \<open>\<open>os.getenv('CREATOR_EMAIL', '').lower()\<close> (line 60).\<close>

definition load_CREATOR_EMAIL :: "string option \<Rightarrow> string" where
  "load_CREATOR_EMAIL env = lower (case env of None \<Rightarrow> [] | Some v \<Rightarrow> v)"

definition get_client_ip :: "request \<Rightarrow> string" where
  "get_client_ip req =
     (case x_forwarded_for req of
        Some h \<Rightarrow>
          if h \<noteq> [] then strip (takeWhile (\<lambda>c. c \<noteq> CHR '','') h)
          else (case remote_addr req of None \<Rightarrow> ''unknown''
                | Some a \<Rightarrow> if a = [] then ''unknown'' else a)
      | None \<Rightarrow>
          (case remote_addr req of None \<Rightarrow> ''unknown''
           | Some a \<Rightarrow> if a = [] then ''unknown'' else a))"

text \<open>
  The table is a \<open>defaultdict\<close> of \<open>defaultdict(float)\<close>: reading a missing entry gives
  0.0 and stores it. \<open>last_time_of\<close> is the value a read gives.
\<close>

definition last_time_of :: "(string \<rightharpoonup> (string \<rightharpoonup> real)) \<Rightarrow> string \<Rightarrow> string \<Rightarrow> real" where
  "last_time_of tbl client_ip endpoint =
     (case tbl client_ip of None \<Rightarrow> 0
      | Some per_ip \<Rightarrow> (case per_ip endpoint of None \<Rightarrow> 0 | Some t \<Rightarrow> t))"

definition check_rate_limit ::
  "request \<Rightarrow> real \<Rightarrow> string \<Rightarrow> real \<Rightarrow> state \<Rightarrow> (bool \<times> real) \<times> state" where
  "check_rate_limit req current_time endpoint limit_seconds s =
     (let client_ip = get_client_ip req;
          per_ip = (case last_request_time s client_ip of None \<Rightarrow> Map.empty | Some m \<Rightarrow> m);
          last_time = (case per_ip endpoint of None \<Rightarrow> 0 | Some t \<Rightarrow> t);
          tbl = (last_request_time s)(client_ip \<mapsto> per_ip(endpoint \<mapsto> last_time));
          elapsed = current_time - last_time
      in if elapsed < limit_seconds
         then ((False, limit_seconds - elapsed), s\<lparr>last_request_time := tbl\<rparr>)
         else ((True, 0),
               s\<lparr>last_request_time := tbl(client_ip \<mapsto> per_ip(endpoint \<mapsto> current_time))\<rparr>))"

text \<open>
  \<open>get_next_api_key\<close>. The module exits at start-up when \<open>API_KEYS\<close> is empty, so the
  modulus is never zero when a handler runs.
\<close>

definition get_next_api_key :: "config \<Rightarrow> state \<Rightarrow> string \<times> state" where
  "get_next_api_key cfg s =
     (let i = (current_key_index s + 1) mod length (API_KEYS cfg)
      in (API_KEYS cfg ! i, s\<lparr>current_key_index := i\<rparr>))"

text \<open>\<open>n\<close> calls of \<open>get_next_api_key\<close> in a row, the keys they return in order.\<close>

fun advance_n :: "config \<Rightarrow> nat \<Rightarrow> state \<Rightarrow> string list \<times> state" where
  "advance_n cfg 0 s = ([], s)"
| "advance_n cfg (Suc n) s =
     (let (k, s') = get_next_api_key cfg s; (ks, s'') = advance_n cfg n s' in (k # ks, s''))"

text \<open>
  \<open>''.join(random.choices(string.digits, k=6))\<close>: \<open>picks\<close> are the six indices the
  random source draws, each below 10.
\<close>

definition generate_verification_code :: "nat list \<Rightarrow> string" where
  "generate_verification_code picks = map (\<lambda>i. ''0123456789'' ! i) picks"

definition HIDDEN :: string where
  "HIDDEN = ''***HIDDEN***''"

definition sanitize_error_message :: "config \<Rightarrow> string \<Rightarrow> string" where
  "sanitize_error_message cfg error =
     (let error_str = fold (\<lambda>key e. str_replace key HIDDEN e) (API_KEYS cfg) error
      in case GMAIL_APP_PASSWORD cfg of
           None \<Rightarrow> error_str
         | Some pw \<Rightarrow> if pw \<noteq> [] then str_replace pw HIDDEN error_str else error_str)"

section \<open>The handlers\<close>

text \<open>\<open>data.get(key, '')\<close> on the JSON object, and \<open>not x\<close> on an optional string.\<close>

definition dict_get :: "(string \<times> string) list \<Rightarrow> string \<Rightarrow> string" where
  "dict_get data k = (case map_of data k of None \<Rightarrow> [] | Some v \<Rightarrow> v)"

definition falsy :: "string option \<Rightarrow> bool" where
  "falsy x = (case x of None \<Rightarrow> True | Some v \<Rightarrow> v = [])"

text \<open>
  What the SMTP block of \<open>send_code\<close> does: it completes, or something in the
  \<open>try\<close> raises.
\<close>

datatype smtp_outcome = SmtpOk | SmtpRaised string

text \<open>\<open>timedelta(minutes=10)\<close> in microseconds.\<close>

definition ten_minutes :: int where
  "ten_minutes = 600000000"

definition send_code ::
  "config \<Rightarrow> request \<Rightarrow> real \<Rightarrow> datetime \<Rightarrow> nat list \<Rightarrow> smtp_outcome \<Rightarrow> state \<Rightarrow> reply \<times> state" where
  "send_code cfg req current_time dt_now picks smtp s =
     (let r = check_rate_limit req current_time ''email'' (real_of_int (RATE_LIMIT_EMAIL cfg)) s;
          allowed = fst (fst r); remaining = snd (fst r); s1 = snd r
      in if \<not> allowed then (EmailRateLimited (py_int remaining), s1)
         else (case json req of
            None \<Rightarrow> (EmailRequired, s1)
          | Some data \<Rightarrow>
              if data = [] \<or> map_of data ''email'' = None then (EmailRequired, s1)
              else
                (let email = strip (dict_get data ''email'')
                 in if email = [] \<or> CHR ''@'' \<notin> set email then (InvalidEmail, s1)
                    else
                      (let s2 = s1\<lparr>verification_codes := (verification_codes s1)
                                  (email \<mapsto> \<lparr>code = generate_verification_code picks,
                                             expires_at = dt_now + ten_minutes\<rparr>)\<rparr>
                       in if falsy (GMAIL_SENDER cfg) \<or> falsy (GMAIL_APP_PASSWORD cfg)
                          then (EmailNotConfigured, s2)
                          else (case smtp of
                                  SmtpOk \<Rightarrow> (CodeSent, s2)
                                | SmtpRaised e \<Rightarrow> (EmailSendFailed, s2))))))"

definition verify_code :: "config \<Rightarrow> request \<Rightarrow> datetime \<Rightarrow> state \<Rightarrow> reply \<times> state" where
  "verify_code cfg req dt_now s =
     (case json req of
        None \<Rightarrow> (InvalidRequest, s)
      | Some data \<Rightarrow>
          if data = [] then (InvalidRequest, s)
          else
            (let email = strip (dict_get data ''email'');
                 supplied = strip (dict_get data ''code'')
             in if email = [] \<or> supplied = [] then (EmailAndCodeRequired, s)
                else (case verification_codes s email of
                   None \<Rightarrow> (InvalidOrExpiredCode, s)
                 | Some stored \<Rightarrow>
                     if dt_now > expires_at stored
                     then (CodeExpired,
                           s\<lparr>verification_codes := (verification_codes s)(email := None)\<rparr>)
                     else if code stored \<noteq> supplied then (WrongCode, s)
                     else (VerifySuccess (lower email = CREATOR_EMAIL cfg),
                           s\<lparr>verification_codes := (verification_codes s)(email := None)\<rparr>))))"

text \<open>
  What one \<open>requests.post\<close> of the chat loop gives: a response with its status code and
  the text at \<open>candidates[0].content.parts[0].text\<close> (\<open>None\<close> when the body does not
  have it, which raises inside the \<open>try\<close>), a timeout, or another exception. The upstream
  is a function of the number of requests sent before, the key and the message.
\<close>

datatype upstream = HttpResponse nat "string option" | Timeout | Raised string

type_synonym chat_upstream = "nat \<Rightarrow> string \<Rightarrow> string \<Rightarrow> upstream"

text \<open>
  The \<open>while\<close> loop of \<open>chat\<close> (lines 347 to 415). \<open>sent\<close> lists the keys of the
  requests sent so far; the result holds the reply, the keys of all requests sent, and the
  state.
\<close>

function chat_loop ::
  "config \<Rightarrow> chat_upstream \<Rightarrow> string \<Rightarrow> nat \<Rightarrow> string \<Rightarrow> string list \<Rightarrow> state
     \<Rightarrow> reply \<times> string list \<times> state" where
  "chat_loop cfg post message attempt api_key sent s =
     (if attempt < length (API_KEYS cfg) then
        (case post (length sent) api_key message of
           HttpResponse st body \<Rightarrow>
             if st = 429 then
               chat_loop cfg post message (attempt + 1) (fst (get_next_api_key cfg s))
                 (sent @ [api_key]) (snd (get_next_api_key cfg s))
             else if st \<noteq> 200 then (ChatApiError, sent @ [api_key], s)
             else (case body of
                     Some ai_response \<Rightarrow> (ChatSuccess ai_response, sent @ [api_key], s)
                   | None \<Rightarrow>
                       if int attempt < int (length (API_KEYS cfg)) - 1 then
                         chat_loop cfg post message (attempt + 1) (fst (get_next_api_key cfg s))
                           (sent @ [api_key]) (snd (get_next_api_key cfg s))
                       else (ChatUnexpected, sent @ [api_key], s))
         | Timeout \<Rightarrow>
             if int attempt < int (length (API_KEYS cfg)) - 1 then
               chat_loop cfg post message (attempt + 1) (fst (get_next_api_key cfg s))
                 (sent @ [api_key]) (snd (get_next_api_key cfg s))
             else (ChatTimeout, sent @ [api_key], s)
         | Raised e \<Rightarrow>
             if int attempt < int (length (API_KEYS cfg)) - 1 then
               chat_loop cfg post message (attempt + 1) (fst (get_next_api_key cfg s))
                 (sent @ [api_key]) (snd (get_next_api_key cfg s))
             else (ChatUnexpected, sent @ [api_key], s))
      else (ChatExhausted, sent, s))"
  by pat_completeness auto
termination
  by (relation "measure (\<lambda>(cfg, post, message, attempt, api_key, sent, s).
        length (API_KEYS cfg) - attempt)") auto

declare chat_loop.simps [simp del]

text \<open>Lines 344 to 415: the loop from \<open>attempt = 0\<close> and the current key.\<close>

definition chat_orchestrate ::
  "config \<Rightarrow> chat_upstream \<Rightarrow> string \<Rightarrow> state \<Rightarrow> reply \<times> string list \<times> state" where
  "chat_orchestrate cfg post message s =
     chat_loop cfg post message 0 (API_KEYS cfg ! current_key_index s) [] s"

definition chat ::
  "config \<Rightarrow> chat_upstream \<Rightarrow> request \<Rightarrow> real \<Rightarrow> state \<Rightarrow> reply \<times> string list \<times> state" where
  "chat cfg post req current_time s =
     (let r = check_rate_limit req current_time ''chat'' (real_of_int (RATE_LIMIT_CHAT cfg)) s;
          allowed = fst (fst r); remaining = snd (fst r); s1 = snd r
      in if \<not> allowed then (ChatRateLimited (py_int remaining), [], s1)
         else (case json req of
            None \<Rightarrow> (MessageRequired, [], s1)
          | Some data \<Rightarrow>
              if data = [] \<or> map_of data ''message'' = None then (MessageRequired, [], s1)
              else
                (let message = strip (dict_get data ''message'')
                 in if message = [] then (EmptyMessage, [], s1)
                    else chat_orchestrate cfg post message s1)))"

text \<open>
  The image upstream answers with a status code and a body, times out, or raises;
  \<open>response.ok\<close> is false for the status codes from 400 to 599. The reply of a success
  carries the body; the source returns it base64-encoded in a data URL.
\<close>

datatype image_upstream = ImgResponse nat string | ImgTimeout | ImgRaised string

definition generate_image ::
  "config \<Rightarrow> (string \<Rightarrow> image_upstream) \<Rightarrow> request \<Rightarrow> real \<Rightarrow> state \<Rightarrow> reply \<times> state" where
  "generate_image cfg get req current_time s =
     (let r = check_rate_limit req current_time ''image'' (real_of_int (RATE_LIMIT_IMAGE cfg)) s;
          allowed = fst (fst r); remaining = snd (fst r); s1 = snd r
      in if \<not> allowed then (ImageRateLimited (py_int remaining), s1)
         else (case json req of
            None \<Rightarrow> (PromptRequired, s1)
          | Some data \<Rightarrow>
              if data = [] \<or> map_of data ''prompt'' = None then (PromptRequired, s1)
              else
                (let prompt = strip (dict_get data ''prompt'')
                 in if prompt = [] then (EmptyPrompt, s1)
                    else (case get prompt of
                            ImgResponse st content \<Rightarrow>
                              if st = 503 then (ImageLoading, s1)
                              else if 400 \<le> st \<and> st < 600 then (ImageFailed, s1)
                              else (ImageSuccess content, s1)
                          | ImgTimeout \<Rightarrow> (ImageTimeout, s1)
                          | ImgRaised e \<Rightarrow> (ImageUnexpected, s1)))))"

section \<open>A configuration and requests to run the handlers on\<close>

definition demo_config :: config where
  "demo_config =
     \<lparr>API_KEYS = [''K1'', ''K2'', ''K3''], GMAIL_SENDER = Some ''bot@x.com'',
      GMAIL_APP_PASSWORD = Some ''pw'', CREATOR_EMAIL = ''boss@x.com'',
      RATE_LIMIT_CHAT = 2, RATE_LIMIT_IMAGE = 5, RATE_LIMIT_EMAIL = 30\<rparr>"

definition demo_state :: state where
  "demo_state =
     \<lparr>current_key_index = 0, verification_codes = Map.empty, last_request_time = Map.empty\<rparr>"

definition demo_request :: "(string \<times> string) list \<Rightarrow> request" where
  "demo_request data = \<lparr>x_forwarded_for = None, remote_addr = Some ''A'', json = Some data\<rparr>"

definition demo_pending :: state where
  "demo_pending =
     demo_state\<lparr>verification_codes := [''a@x.com'' \<mapsto> \<lparr>code = ''123456'', expires_at = 600\<rparr>]\<rparr>"

definition demo_verify :: request where
  "demo_verify = demo_request [(''email'', ''a@x.com''), (''code'', ''123456'')]"


definition demo_send :: request where
  "demo_send = demo_request [(''email'', ''a@x.com'')]"

text \<open>
  Two upstreams: one whose quota is exhausted for every key but \<open>K3\<close>, one that never
  answers in time.
\<close>

definition demo_post :: chat_upstream where
  "demo_post n api_key message =
     (if api_key = ''K3'' then HttpResponse 200 (Some ''hello'') else HttpResponse 429 None)"

definition demo_post_timeout :: chat_upstream where
  "demo_post_timeout n api_key message = Timeout"

definition demo_config2 :: config where
  "demo_config2 = demo_config\<lparr>API_KEYS := [''K1'', ''K2'']\<rparr>"

definition demo_config_star :: config where
  "demo_config_star = demo_config\<lparr>API_KEYS := [''a*'', ''DEN''], GMAIL_APP_PASSWORD := None\<rparr>"

definition demo_config_nested :: config where
  "demo_config_nested =
     demo_config\<lparr>API_KEYS := [''X'', ''secretXkey''], GMAIL_APP_PASSWORD := None\<rparr>"

section \<open>The credential rotator\<close>

lemma advance_n_index:
  "current_key_index (snd (advance_n cfg n s)) =
     (if n = 0 then current_key_index s
      else (current_key_index s + n) mod length (API_KEYS cfg))"
proof (induction n arbitrary: s)
  case 0
  show ?case by simp
next
  case (Suc n)
  show ?case
    by (simp add: Suc.IH get_next_api_key_def Let_def split_beta mod_simps)
qed

lemma advance_n_frame:
  "\<exists>i. snd (advance_n cfg n s) = s\<lparr>current_key_index := i\<rparr>"
proof (induction n arbitrary: s)
  case 0
  have "s = s\<lparr>current_key_index := current_key_index s\<rparr>" by simp
  then show ?case by (metis advance_n.simps(1) snd_conv)
next
  case (Suc n)
  obtain i where "snd (advance_n cfg n (snd (get_next_api_key cfg s)))
      = (snd (get_next_api_key cfg s))\<lparr>current_key_index := i\<rparr>"
    using Suc.IH by blast
  then have "snd (advance_n cfg (Suc n) s) = s\<lparr>current_key_index := i\<rparr>"
    by (simp add: get_next_api_key_def Let_def split_beta)
  then show ?case by blast
qed

text \<open>
  C6. For a credential list of size \<open>N\<close> and a cursor \<open>i\<close> that is a valid index, one call
  of \<open>get_next_api_key\<close> moves the cursor to \<open>(i + 1) mod N\<close> and returns the
  credential at that position; \<open>N\<close> calls in a row leave the state as it was, so the cursor
  and the current credential are those before the first call.
\<close>

theorem get_next_api_key_wraparound:
  assumes "current_key_index s < length (API_KEYS cfg)"
  shows "current_key_index (snd (get_next_api_key cfg s))
           = (current_key_index s + 1) mod length (API_KEYS cfg)
       \<and> fst (get_next_api_key cfg s)
           = API_KEYS cfg ! ((current_key_index s + 1) mod length (API_KEYS cfg))
       \<and> snd (advance_n cfg (length (API_KEYS cfg)) s) = s
       \<and> API_KEYS cfg ! current_key_index (snd (advance_n cfg (length (API_KEYS cfg)) s))
           = API_KEYS cfg ! current_key_index s"
proof -
  let ?N = "length (API_KEYS cfg)"
  have one: "current_key_index (snd (get_next_api_key cfg s)) = (current_key_index s + 1) mod ?N"
    and key: "fst (get_next_api_key cfg s) = API_KEYS cfg ! ((current_key_index s + 1) mod ?N)"
    by (simp_all add: get_next_api_key_def Let_def)
  have pos: "?N \<noteq> 0" using assms by auto
  have idx: "current_key_index (snd (advance_n cfg ?N s)) = current_key_index s"
    using assms pos by (simp add: advance_n_index)
  obtain i where i: "snd (advance_n cfg ?N s) = s\<lparr>current_key_index := i\<rparr>"
    using advance_n_frame by blast
  have "i = current_key_index s" using idx i by simp
  then have same: "snd (advance_n cfg ?N s) = s" using i by simp
  show ?thesis using one key same by simp
qed

theorem get_next_api_key_wraparound_witness:
  "current_key_index (demo_state\<lparr>current_key_index := 2\<rparr>) < length (API_KEYS demo_config)
   \<and> fst (get_next_api_key demo_config (demo_state\<lparr>current_key_index := 2\<rparr>)) = ''K1''
   \<and> snd (advance_n demo_config (length (API_KEYS demo_config))
            (demo_state\<lparr>current_key_index := 2\<rparr>)) = demo_state\<lparr>current_key_index := 2\<rparr>"
proof -
  have h: "current_key_index (demo_state\<lparr>current_key_index := 2\<rparr>) < length (API_KEYS demo_config)"
    by (simp add: demo_config_def)
  have k: "API_KEYS demo_config
      ! ((current_key_index (demo_state\<lparr>current_key_index := 2\<rparr>) + 1)
           mod length (API_KEYS demo_config)) = ''K1''"
    by (simp add: demo_config_def)
  show ?thesis using get_next_api_key_wraparound [OF h] h k by metis
qed

section \<open>The rate limiter\<close>

lemma check_rate_limit_rejected:
  assumes "current_time - last_time_of (last_request_time s) (get_client_ip req) endpoint
             < limit_seconds"
  shows "fst (check_rate_limit req current_time endpoint limit_seconds s)
           = (False, limit_seconds
                - (current_time - last_time_of (last_request_time s) (get_client_ip req) endpoint))"
    and "last_time_of (last_request_time (snd (check_rate_limit req current_time endpoint limit_seconds s))) ip' ep'
           = last_time_of (last_request_time s) ip' ep'"
    and "current_key_index (snd (check_rate_limit req current_time endpoint limit_seconds s))
           = current_key_index s"
    and "verification_codes (snd (check_rate_limit req current_time endpoint limit_seconds s))
           = verification_codes s"
  using assms
  by (auto simp add: check_rate_limit_def Let_def last_time_of_def split: option.splits)

lemma check_rate_limit_admitted:
  assumes "\<not> current_time - last_time_of (last_request_time s) (get_client_ip req) endpoint
             < limit_seconds"
  shows "fst (check_rate_limit req current_time endpoint limit_seconds s) = (True, 0)"
    and "last_time_of (last_request_time (snd (check_rate_limit req current_time endpoint limit_seconds s))) ip' ep'
           = (if ip' = get_client_ip req \<and> ep' = endpoint then current_time
              else last_time_of (last_request_time s) ip' ep')"
    and "current_key_index (snd (check_rate_limit req current_time endpoint limit_seconds s))
           = current_key_index s"
    and "verification_codes (snd (check_rate_limit req current_time endpoint limit_seconds s))
           = verification_codes s"
  using assms
  by (auto simp add: check_rate_limit_def Let_def last_time_of_def split: option.splits)

text \<open>
  C2, as amended. A pair that was never seen reads as last admitted at time 0, so the time
  elapsed for it is the current time itself. With \<open>elapsed\<close> the current time minus the
  last admitted time of the pair: when \<open>elapsed \<ge> T\<close> the check admits and records the
  current time for the pair, leaving every other pair as it was; when \<open>elapsed < T\<close> it
  rejects with \<open>T - elapsed\<close> seconds remaining, which is positive, leaves the last
  admitted time of every pair as it was, and the remaining time is at most \<open>T\<close> when the
  clock has not gone back behind the last admitted time.
\<close>

theorem check_rate_limit_by_elapsed:
  "(T \<le> current_time - last_time_of (last_request_time s) (get_client_ip req) endpoint \<longrightarrow>
      fst (check_rate_limit req current_time endpoint T s) = (True, 0)
      \<and> last_time_of (last_request_time (snd (check_rate_limit req current_time endpoint T s)))
            (get_client_ip req) endpoint = current_time
      \<and> (\<forall>ip' ep'. \<not> (ip' = get_client_ip req \<and> ep' = endpoint) \<longrightarrow>
            last_time_of (last_request_time (snd (check_rate_limit req current_time endpoint T s))) ip' ep'
              = last_time_of (last_request_time s) ip' ep'))
   \<and> (current_time - last_time_of (last_request_time s) (get_client_ip req) endpoint < T \<longrightarrow>
      fst (check_rate_limit req current_time endpoint T s)
         = (False, T - (current_time - last_time_of (last_request_time s) (get_client_ip req) endpoint))
      \<and> 0 < T - (current_time - last_time_of (last_request_time s) (get_client_ip req) endpoint)
      \<and> (last_time_of (last_request_time s) (get_client_ip req) endpoint \<le> current_time \<longrightarrow>
            T - (current_time - last_time_of (last_request_time s) (get_client_ip req) endpoint) \<le> T)
      \<and> (\<forall>ip' ep'.
            last_time_of (last_request_time (snd (check_rate_limit req current_time endpoint T s))) ip' ep'
              = last_time_of (last_request_time s) ip' ep'))"
proof (intro conjI impI allI)
  assume a: "T \<le> current_time - last_time_of (last_request_time s) (get_client_ip req) endpoint"
  then have n: "\<not> current_time - last_time_of (last_request_time s) (get_client_ip req) endpoint < T"
    by simp
  show "fst (check_rate_limit req current_time endpoint T s) = (True, 0)"
    by (rule check_rate_limit_admitted(1) [OF n])
  show "last_time_of (last_request_time (snd (check_rate_limit req current_time endpoint T s)))
          (get_client_ip req) endpoint = current_time"
    by (simp add: check_rate_limit_admitted(2) [OF n])
  fix ip' ep'
  assume "\<not> (ip' = get_client_ip req \<and> ep' = endpoint)"
  then show "last_time_of (last_request_time (snd (check_rate_limit req current_time endpoint T s))) ip' ep'
      = last_time_of (last_request_time s) ip' ep'"
    by (auto simp add: check_rate_limit_admitted(2) [OF n])
next
  assume r: "current_time - last_time_of (last_request_time s) (get_client_ip req) endpoint < T"
  show "fst (check_rate_limit req current_time endpoint T s)
         = (False, T - (current_time - last_time_of (last_request_time s) (get_client_ip req) endpoint))"
    by (rule check_rate_limit_rejected(1) [OF r])
  show "0 < T - (current_time - last_time_of (last_request_time s) (get_client_ip req) endpoint)"
    using r by simp
  show "T - (current_time - last_time_of (last_request_time s) (get_client_ip req) endpoint) \<le> T"
    if "last_time_of (last_request_time s) (get_client_ip req) endpoint \<le> current_time"
    using that by simp
  show "last_time_of (last_request_time (snd (check_rate_limit req current_time endpoint T s))) ip' ep'
      = last_time_of (last_request_time s) ip' ep'" for ip' ep'
    by (rule check_rate_limit_rejected(2) [OF r])
qed

text \<open>
  The chat threshold of 2 seconds: a client admitted at time 100 is rejected at time 101
  with one second remaining, and admitted again at time 102.1.
\<close>

theorem check_rate_limit_by_elapsed_witness:
  "fst (check_rate_limit (demo_request []) 101 ''chat'' 2
          (snd (check_rate_limit (demo_request []) 100 ''chat'' 2 demo_state))) = (False, 1)
   \<and> fst (check_rate_limit (demo_request []) (1021 / 10) ''chat'' 2
          (snd (check_rate_limit (demo_request []) 100 ''chat'' 2 demo_state))) = (True, 0)"
proof -
  let ?s = "snd (check_rate_limit (demo_request []) 100 ''chat'' 2 demo_state)"
  have l: "last_time_of (last_request_time ?s) (get_client_ip (demo_request [])) ''chat'' = 100"
    by (simp add: check_rate_limit_def Let_def last_time_of_def demo_state_def)
  have a: "101 - last_time_of (last_request_time ?s) (get_client_ip (demo_request [])) ''chat'' < 2"
    and b: "2 \<le> 1021 / 10 - last_time_of (last_request_time ?s) (get_client_ip (demo_request [])) ''chat''"
    by (simp_all add: l)
  show ?thesis
    using check_rate_limit_by_elapsed [of 2 101 ?s "demo_request []" "''chat''"]
      check_rate_limit_by_elapsed [of 2 "1021 / 10" ?s "demo_request []" "''chat''"] a b l
    by simp
qed

text \<open>
  C2 as stated fails twice. A pair never seen is not treated as infinitely long ago: with
  a threshold above the current time its first request is rejected. And a rejection can
  report more than the threshold: after an admission at time 100, a check at time 99 (the
  wall clock was set back) with threshold 2 reports 3 seconds.
\<close>

theorem check_rate_limit_counterexample:
  "last_request_time demo_state (get_client_ip (demo_request [])) = None
   \<and> fst (check_rate_limit (demo_request []) 1762000000 ''chat'' 2000000000 demo_state)
       = (False, 238000000)
   \<and> fst (check_rate_limit (demo_request []) 99 ''chat'' 2
          (snd (check_rate_limit (demo_request []) 100 ''chat'' 2 demo_state))) = (False, 3)
   \<and> \<not> (3::real) \<le> 2"
  by (simp add: check_rate_limit_def Let_def demo_state_def)

section \<open>The verification code store\<close>

lemma digit_not_space: "i < 10 \<Longrightarrow> \<not> is_space (''0123456789'' ! i)"
  by (auto simp add: is_space_def less_Suc_eq numeral_eq_Suc nth_Cons')

lemma strip_no_space: "\<forall>c\<in>set s. \<not> is_space c \<Longrightarrow> strip s = s"
  unfolding strip_def
  by (metis dropWhile_eq_self_iff hd_in_set hd_rev last_in_set rev_rev_ident rev_is_Nil_conv)

lemma strip_generate_verification_code:
  "\<forall>i\<in>set picks. i < 10 \<Longrightarrow>
     strip (generate_verification_code picks) = generate_verification_code picks"
  by (rule strip_no_space) (auto simp add: generate_verification_code_def digit_not_space)

lemma verify_code_cases:
  assumes "json req = Some data" "data \<noteq> []"
    and "strip (dict_get data ''email'') \<noteq> []" "strip (dict_get data ''code'') \<noteq> []"
  shows "verify_code cfg req dt_now s =
     (case verification_codes s (strip (dict_get data ''email'')) of
        None \<Rightarrow> (InvalidOrExpiredCode, s)
      | Some stored \<Rightarrow>
          if dt_now > expires_at stored
          then (CodeExpired,
                s\<lparr>verification_codes := (verification_codes s)(strip (dict_get data ''email'') := None)\<rparr>)
          else if code stored \<noteq> strip (dict_get data ''code'') then (WrongCode, s)
          else (VerifySuccess (lower (strip (dict_get data ''email'')) = CREATOR_EMAIL cfg),
                s\<lparr>verification_codes := (verification_codes s)(strip (dict_get data ''email'') := None)\<rparr>))"
  using assms by (simp add: verify_code_def Let_def)

lemma send_code_admitted:
  assumes "\<not> current_time - last_time_of (last_request_time s) (get_client_ip req) ''email''
             < real_of_int (RATE_LIMIT_EMAIL cfg)"
    and "json req = Some data" "map_of data ''email'' \<noteq> None"
    and "strip (dict_get data ''email'') \<noteq> []" "CHR ''@'' \<in> set (strip (dict_get data ''email''))"
  shows "verification_codes (snd (send_code cfg req current_time dt_now picks smtp s))
           = (verification_codes s)(strip (dict_get data ''email'') \<mapsto>
                \<lparr>code = generate_verification_code picks, expires_at = dt_now + ten_minutes\<rparr>)"
    and "fst (send_code cfg req current_time dt_now picks smtp s)
           = (if falsy (GMAIL_SENDER cfg) \<or> falsy (GMAIL_APP_PASSWORD cfg) then EmailNotConfigured
              else case smtp of SmtpOk \<Rightarrow> CodeSent | SmtpRaised e \<Rightarrow> EmailSendFailed)"
proof -
  have d: "data \<noteq> []" using assms(3) by auto
  show "verification_codes (snd (send_code cfg req current_time dt_now picks smtp s))
           = (verification_codes s)(strip (dict_get data ''email'') \<mapsto>
                \<lparr>code = generate_verification_code picks, expires_at = dt_now + ten_minutes\<rparr>)"
    using assms d
    by (auto simp add: send_code_def Let_def check_rate_limit_admitted split: smtp_outcome.splits)
  show "fst (send_code cfg req current_time dt_now picks smtp s)
           = (if falsy (GMAIL_SENDER cfg) \<or> falsy (GMAIL_APP_PASSWORD cfg) then EmailNotConfigured
              else case smtp of SmtpOk \<Rightarrow> CodeSent | SmtpRaised e \<Rightarrow> EmailSendFailed)"
    using assms d
    by (auto simp add: send_code_def Let_def check_rate_limit_admitted split: smtp_outcome.splits)
qed

text \<open>
  C5, as amended. For an email with a pending record, a verify attempt made strictly after
  the record's expiry timestamp yields Expired (\<open>CodeExpired\<close>) and deletes the record,
  so that a later verify attempt for the same email yields NoSuchCode
  (\<open>InvalidOrExpiredCode\<close>). A verify attempt made exactly at the expiry timestamp is
  not expired: it yields Success for the matching code and Mismatch (\<open>WrongCode\<close>)
  otherwise.
\<close>

theorem verify_code_expired:
  assumes "json req = Some data" and "data \<noteq> []"
    and "strip (dict_get data ''email'') = email" and "email \<noteq> []"
    and "strip (dict_get data ''code'') = supplied" and "supplied \<noteq> []"
    and "verification_codes s email = Some stored"
    and "expires_at stored \<le> dt_now"
  shows "(expires_at stored < dt_now \<longrightarrow>
            verify_code cfg req dt_now s
              = (CodeExpired, s\<lparr>verification_codes := (verification_codes s)(email := None)\<rparr>)
            \<and> verify_code cfg req dt_later (snd (verify_code cfg req dt_now s))
                = (InvalidOrExpiredCode, snd (verify_code cfg req dt_now s)))
       \<and> (dt_now = expires_at stored \<longrightarrow>
            fst (verify_code cfg req dt_now s)
              = (if code stored = supplied then VerifySuccess (lower email = CREATOR_EMAIL cfg)
                 else WrongCode))"
  using assms by (simp add: verify_code_cases)

theorem verify_code_expired_witness:
  "verify_code demo_config demo_verify 601 demo_pending
     = (CodeExpired,
        demo_pending\<lparr>verification_codes := (verification_codes demo_pending)(''a@x.com'' := None)\<rparr>)
   \<and> verify_code demo_config demo_verify 602 (snd (verify_code demo_config demo_verify 601 demo_pending))
     = (InvalidOrExpiredCode, snd (verify_code demo_config demo_verify 601 demo_pending))"
proof -
  let ?data = "[(''email'', ''a@x.com''), (''code'', ''123456'')]"
  let ?stored = "\<lparr>code = ''123456'', expires_at = 600\<rparr>"
  have j: "json demo_verify = Some ?data"
    by (simp add: demo_verify_def demo_request_def)
  have e: "strip (dict_get ?data ''email'') = ''a@x.com''"
    and c: "strip (dict_get ?data ''code'') = ''123456''"
    by (simp_all add: dict_get_def strip_def is_space_def)
  have v: "verification_codes demo_pending ''a@x.com'' = Some ?stored"
    by (simp add: demo_pending_def)
  have h: "expires_at ?stored \<le> 601" and lt: "expires_at ?stored < 601" by simp_all
  have n: "?data \<noteq> []" "''a@x.com'' \<noteq> []" "''123456'' \<noteq> []" by simp_all
  from verify_code_expired [OF j n(1) e n(2) c n(3) v h, of demo_config 602] lt
  show ?thesis by blast
qed

text \<open>
  C5 as stated fails at the expiry timestamp itself: the test is \<open>now > expires_at\<close>, and
  the matching code is still accepted there.
\<close>

theorem verify_code_expired_counterexample:
  "fst (verify_code demo_config demo_verify 600 demo_pending) = VerifySuccess False"
  by (simp add: verify_code_def demo_verify_def demo_pending_def demo_request_def demo_config_def
        demo_state_def dict_get_def strip_def is_space_def lower_def lower_char_def)

text \<open>
  C8. For an email with a pending record, verifying with the code equal to the stored one,
  not after the expiry, yields Success and deletes the record, so a second verify with the
  same email and code yields NoSuchCode; the flag of the Success is the comparison of the
  lower-cased email with the lower-cased configured privileged address.
\<close>

theorem verify_code_success_once:
  assumes "json req = Some data" and "data \<noteq> []"
    and "strip (dict_get data ''email'') = email" and "email \<noteq> []"
    and "strip (dict_get data ''code'') = supplied" and "supplied \<noteq> []"
    and "verification_codes s email = Some stored"
    and "code stored = supplied"
    and "dt_now \<le> expires_at stored"
    and "CREATOR_EMAIL cfg = load_CREATOR_EMAIL env"
  shows "verify_code cfg req dt_now s
           = (VerifySuccess (lower email = lower (case env of None \<Rightarrow> [] | Some v \<Rightarrow> v)),
              s\<lparr>verification_codes := (verification_codes s)(email := None)\<rparr>)
       \<and> verify_code cfg req dt_later (snd (verify_code cfg req dt_now s))
           = (InvalidOrExpiredCode, snd (verify_code cfg req dt_now s))"
  using assms by (simp add: verify_code_cases load_CREATOR_EMAIL_def)

theorem verify_code_success_once_witness:
  "verify_code demo_config demo_verify 600 demo_pending
     = (VerifySuccess (lower ''a@x.com'' = lower (case Some ''Boss@X.com'' of None \<Rightarrow> [] | Some v \<Rightarrow> v)),
        demo_pending\<lparr>verification_codes := (verification_codes demo_pending)(''a@x.com'' := None)\<rparr>)
   \<and> verify_code demo_config demo_verify 601 (snd (verify_code demo_config demo_verify 600 demo_pending))
     = (InvalidOrExpiredCode, snd (verify_code demo_config demo_verify 600 demo_pending))"
proof -
  let ?data = "[(''email'', ''a@x.com''), (''code'', ''123456'')]"
  let ?stored = "\<lparr>code = ''123456'', expires_at = 600\<rparr>"
  have j: "json demo_verify = Some ?data"
    by (simp add: demo_verify_def demo_request_def)
  have e: "strip (dict_get ?data ''email'') = ''a@x.com''"
    and c: "strip (dict_get ?data ''code'') = ''123456''"
    by (simp_all add: dict_get_def strip_def is_space_def)
  have v: "verification_codes demo_pending ''a@x.com'' = Some ?stored"
    by (simp add: demo_pending_def)
  have h: "600 \<le> expires_at ?stored" and m: "code ?stored = ''123456''" by simp_all
  have n: "?data \<noteq> []" "''a@x.com'' \<noteq> []" "''123456'' \<noteq> []" by simp_all
  have l: "lower ''Boss@X.com'' = ''boss@x.com''" by code_simp
  have cr: "CREATOR_EMAIL demo_config = load_CREATOR_EMAIL (Some ''Boss@X.com'')"
    by (simp add: demo_config_def load_CREATOR_EMAIL_def l)
  from verify_code_success_once [OF j n(1) e n(2) c n(3) v m h cr, of 601]
  show ?thesis .
qed

lemma verify_code_status: "status_code (fst (verify_code cfg req dt_now s)) \<noteq> 429"
  by (simp add: verify_code_def Let_def split: option.splits)

lemma verify_code_table:
  "last_request_time (snd (verify_code cfg req dt_now s)) = last_request_time s"
  by (simp add: verify_code_def Let_def split: option.splits)

lemma verify_code_table_independent:
  "verify_code cfg req dt_now (s\<lparr>last_request_time := tbl\<rparr>)
     = (fst (verify_code cfg req dt_now s), (snd (verify_code cfg req dt_now s))\<lparr>last_request_time := tbl\<rparr>)"
  by (simp add: verify_code_def Let_def split: option.splits)

text \<open>
  C9. The verify handler does no rate limiting: its reply never has status 429, it
  leaves the rate-limit table as it was, and its reply and the rest of the state it returns
  do not depend on the table. The handlers for code issuance, chat and image consult the
  limiter: each replies 429 to a request that comes before its threshold has passed.
\<close>

theorem verify_code_no_rate_limit:
  "status_code (fst (verify_code cfg req dt_now s)) \<noteq> 429
   \<and> last_request_time (snd (verify_code cfg req dt_now s)) = last_request_time s
   \<and> verify_code cfg req dt_now (s\<lparr>last_request_time := tbl\<rparr>)
       = (fst (verify_code cfg req dt_now s),
          (snd (verify_code cfg req dt_now s))\<lparr>last_request_time := tbl\<rparr>)
   \<and> (current_time - last_time_of (last_request_time s) (get_client_ip req) ''email''
         < real_of_int (RATE_LIMIT_EMAIL cfg) \<longrightarrow>
       status_code (fst (send_code cfg req current_time dt_now picks smtp s)) = 429)
   \<and> (current_time - last_time_of (last_request_time s) (get_client_ip req) ''chat''
         < real_of_int (RATE_LIMIT_CHAT cfg) \<longrightarrow>
       status_code (fst (chat cfg post req current_time s)) = 429)
   \<and> (current_time - last_time_of (last_request_time s) (get_client_ip req) ''image''
         < real_of_int (RATE_LIMIT_IMAGE cfg) \<longrightarrow>
       status_code (fst (generate_image cfg get req current_time s)) = 429)"
  by (simp add: verify_code_status verify_code_table verify_code_table_independent
        send_code_def chat_def generate_image_def Let_def check_rate_limit_rejected(1))

theorem verify_code_no_rate_limit_witness:
  "status_code (fst (send_code demo_config demo_verify 101 0 [1, 2, 3, 4, 5, 6] SmtpOk
      (snd (check_rate_limit demo_verify 100 ''email'' 30 demo_pending)))) = 429
   \<and> status_code (fst (verify_code demo_config demo_verify 0
      (snd (check_rate_limit demo_verify 100 ''email'' 30 demo_pending)))) = 200"
proof -
  let ?s = "snd (check_rate_limit demo_verify 100 ''email'' 30 demo_pending)"
  have l: "last_time_of (last_request_time ?s) (get_client_ip demo_verify) ''email'' = 100"
    by (simp add: check_rate_limit_def Let_def last_time_of_def demo_state_def demo_pending_def)
  have a: "101 - last_time_of (last_request_time ?s) (get_client_ip demo_verify) ''email''
             < real_of_int (RATE_LIMIT_EMAIL demo_config)"
    by (simp add: l demo_config_def)
  have v: "fst (verify_code demo_config demo_verify 0 ?s) = VerifySuccess False"
    by (simp add: verify_code_def demo_verify_def demo_pending_def demo_request_def demo_config_def
        demo_state_def dict_get_def strip_def is_space_def lower_def lower_char_def
        check_rate_limit_def Let_def)
  from verify_code_no_rate_limit [of demo_config demo_verify 0 ?s _ 101 "[1, 2, 3, 4, 5, 6]" SmtpOk] a v
  show ?thesis by simp
qed

text \<open>
  C10. When the limiter admits the request and the email is valid, \<open>send_code\<close> stores the
  new record (the fresh code, expiry ten minutes from now) in place of any record the email
  had, whatever the delivery does: when the delivery raises, the reply is the delivery
  failure and the new record is stored; when the Gmail credentials are missing the reply
  is the configuration error, with the record stored as well.
\<close>

theorem send_code_stores_before_delivery:
  assumes "\<not> current_time - last_time_of (last_request_time s) (get_client_ip req) ''email''
             < real_of_int (RATE_LIMIT_EMAIL cfg)"
    and "json req = Some data" and "map_of data ''email'' \<noteq> None"
    and "strip (dict_get data ''email'') = email" and "email \<noteq> []" and "CHR ''@'' \<in> set email"
  shows "verification_codes (snd (send_code cfg req current_time dt_now picks smtp s))
           = (verification_codes s)(email \<mapsto>
                \<lparr>code = generate_verification_code picks, expires_at = dt_now + ten_minutes\<rparr>)
       \<and> (\<not> falsy (GMAIL_SENDER cfg) \<and> \<not> falsy (GMAIL_APP_PASSWORD cfg) \<longrightarrow>
            fst (send_code cfg req current_time dt_now picks (SmtpRaised e) s) = EmailSendFailed
            \<and> verification_codes (snd (send_code cfg req current_time dt_now picks (SmtpRaised e) s)) email
                = Some \<lparr>code = generate_verification_code picks, expires_at = dt_now + ten_minutes\<rparr>)
       \<and> (falsy (GMAIL_SENDER cfg) \<or> falsy (GMAIL_APP_PASSWORD cfg) \<longrightarrow>
            fst (send_code cfg req current_time dt_now picks smtp s) = EmailNotConfigured)"
proof -
  have a: "strip (dict_get data ''email'') \<noteq> []"
    and b: "CHR ''@'' \<in> set (strip (dict_get data ''email''))"
    using assms(4-6) by simp_all
  show ?thesis
    using send_code_admitted [OF assms(1-3) a b, of dt_now picks] assms(4)
    by simp
qed

theorem send_code_stores_before_delivery_witness:
  "fst (send_code demo_config demo_send 100 0 [6, 5, 4, 3, 2, 1] (SmtpRaised ''boom'') demo_pending)
     = EmailSendFailed
   \<and> verification_codes
       (snd (send_code demo_config demo_send 100 0 [6, 5, 4, 3, 2, 1] (SmtpRaised ''boom'') demo_pending))
       ''a@x.com''
     = Some \<lparr>code = generate_verification_code [6, 5, 4, 3, 2, 1], expires_at = 0 + ten_minutes\<rparr>"
proof -
  let ?data = "[(''email'', ''a@x.com'')]"
  have j: "json demo_send = Some ?data" by (simp add: demo_send_def demo_request_def)
  have e: "strip (dict_get ?data ''email'') = ''a@x.com''"
    by (simp add: dict_get_def strip_def is_space_def)
  have a: "\<not> 100 - last_time_of (last_request_time demo_pending) (get_client_ip demo_send) ''email''
             < real_of_int (RATE_LIMIT_EMAIL demo_config)"
    by (simp add: last_time_of_def demo_pending_def demo_state_def demo_config_def)
  have m: "map_of ?data ''email'' \<noteq> None" and n: "''a@x.com'' \<noteq> []"
    and at: "CHR ''@'' \<in> set ''a@x.com''" by simp_all
  have g: "\<not> falsy (GMAIL_SENDER demo_config) \<and> \<not> falsy (GMAIL_APP_PASSWORD demo_config)"
    by (simp add: falsy_def demo_config_def)
  from send_code_stores_before_delivery [OF a j m e n at, of 0 "[6, 5, 4, 3, 2, 1]" _ "''boom''"] g
  show ?thesis by blast
qed

lemma send_code_issued:
  assumes "fst (send_code cfg req current_time dt_now picks smtp s)
             \<in> {CodeSent, EmailSendFailed, EmailNotConfigured}"
  shows "\<exists>data. json req = Some data \<and> data \<noteq> [] \<and> strip (dict_get data ''email'') \<noteq> []
           \<and> verification_codes (snd (send_code cfg req current_time dt_now picks smtp s))
               = (verification_codes s)(strip (dict_get data ''email'') \<mapsto>
                    \<lparr>code = generate_verification_code picks, expires_at = dt_now + ten_minutes\<rparr>)"
proof -
  have v: "verification_codes (snd (check_rate_limit req current_time ''email'' T s)) = verification_codes s" for T
    by (simp add: check_rate_limit_def Let_def)
  show ?thesis using assms
    by (auto simp add: send_code_def Let_def v split: option.splits if_splits smtp_outcome.splits)
qed

lemma generate_verification_code_nonempty:
  "length picks = 6 \<Longrightarrow> generate_verification_code picks \<noteq> []"
  by (auto simp add: generate_verification_code_def)

text \<open>
  C7, as amended. After a code was issued for an email and a second one was issued for the
  same email, a verify with the first code (not after the new record's expiry) yields
  Mismatch (\<open>WrongCode\<close>) whenever the second code drawn differs from the first; when
  the random source draws the same six digits again, the first code is the stored code
  and the verify yields Success.
\<close>

theorem reissue_invalidates_first_code:
  assumes "fst (send_code cfg req1 t1 d1 picks1 smtp1 s)
             \<in> {CodeSent, EmailSendFailed, EmailNotConfigured}"
    and "fst (send_code cfg req2 t2 d2 picks2 smtp2 (snd (send_code cfg req1 t1 d1 picks1 smtp1 s)))
             \<in> {CodeSent, EmailSendFailed, EmailNotConfigured}"
    and "json req1 = Some data1" and "strip (dict_get data1 ''email'') = email"
    and "json req2 = Some data2" and "strip (dict_get data2 ''email'') = email"
    and "json reqv = Some datav" and "strip (dict_get datav ''email'') = email"
    and "dict_get datav ''code'' = generate_verification_code picks1"
    and "length picks1 = 6" and "\<forall>i\<in>set picks1. i < 10"
    and "dv \<le> d2 + ten_minutes"
  shows "fst (verify_code cfg reqv dv
           (snd (send_code cfg req2 t2 d2 picks2 smtp2 (snd (send_code cfg req1 t1 d1 picks1 smtp1 s)))))
         = (if generate_verification_code picks2 = generate_verification_code picks1
            then VerifySuccess (lower email = CREATOR_EMAIL cfg) else WrongCode)"
proof -
  let ?s1 = "snd (send_code cfg req1 t1 d1 picks1 smtp1 s)"
  let ?s2 = "snd (send_code cfg req2 t2 d2 picks2 smtp2 ?s1)"
  from send_code_issued [OF assms(2)] assms(5,6)
  have st: "verification_codes ?s2 email
      = Some \<lparr>code = generate_verification_code picks2, expires_at = d2 + ten_minutes\<rparr>"
    and ne: "email \<noteq> []"
    by auto
  have c: "strip (dict_get datav ''code'') = generate_verification_code picks1"
    using assms(9,11) by (simp add: strip_generate_verification_code)
  have cn: "strip (dict_get datav ''code'') \<noteq> []"
    using c assms(10) by (simp add: generate_verification_code_nonempty)
  have dn: "datav \<noteq> []"
    using assms(9,10) generate_verification_code_nonempty [of picks1]
    by (auto simp add: dict_get_def)
  have en: "strip (dict_get datav ''email'') \<noteq> []" using assms(8) ne by simp
  show ?thesis
    using verify_code_cases [OF assms(7) dn en cn, of cfg dv ?s2] assms(8,12) st c
    by simp
qed

lemma demo_send_twice:
  "fst (send_code demo_config demo_send 100 0 [1, 2, 3, 4, 5, 6] SmtpOk demo_state) = CodeSent"
  "fst (send_code demo_config demo_send 200 100000000 picks SmtpOk
         (snd (send_code demo_config demo_send 100 0 [1, 2, 3, 4, 5, 6] SmtpOk demo_state))) = CodeSent"
  by (simp_all add: send_code_def check_rate_limit_def Let_def demo_send_def demo_request_def
        demo_state_def demo_config_def dict_get_def strip_def is_space_def falsy_def
        get_client_ip_def)

theorem reissue_invalidates_first_code_witness:
  "fst (verify_code demo_config demo_verify 200000000
     (snd (send_code demo_config demo_send 200 100000000 [6, 5, 4, 3, 2, 1] SmtpOk
        (snd (send_code demo_config demo_send 100 0 [1, 2, 3, 4, 5, 6] SmtpOk demo_state)))))
   = WrongCode"
proof -
  let ?data = "[(''email'', ''a@x.com'')]"
  let ?datav = "[(''email'', ''a@x.com''), (''code'', ''123456'')]"
  have j: "json demo_send = Some ?data" by (simp add: demo_send_def demo_request_def)
  have jv: "json demo_verify = Some ?datav" by (simp add: demo_verify_def demo_request_def)
  have e: "strip (dict_get ?data ''email'') = ''a@x.com''"
    and ev: "strip (dict_get ?datav ''email'') = ''a@x.com''"
    by (simp_all add: dict_get_def strip_def is_space_def)
  have c: "dict_get ?datav ''code'' = generate_verification_code [1, 2, 3, 4, 5, 6]"
    by (simp add: dict_get_def generate_verification_code_def)
  have p: "length [1, 2, 3, 4, 5, 6::nat] = 6" "\<forall>i\<in>set [1, 2, 3, 4, 5, 6::nat]. i < 10" by simp_all
  have t: "(200000000::int) \<le> 100000000 + ten_minutes" by (simp add: ten_minutes_def)
  have i1: "fst (send_code demo_config demo_send 100 0 [1, 2, 3, 4, 5, 6] SmtpOk demo_state)
      \<in> {CodeSent, EmailSendFailed, EmailNotConfigured}"
    using demo_send_twice(1) by simp
  have i2: "fst (send_code demo_config demo_send 200 100000000 [6, 5, 4, 3, 2, 1] SmtpOk
         (snd (send_code demo_config demo_send 100 0 [1, 2, 3, 4, 5, 6] SmtpOk demo_state)))
      \<in> {CodeSent, EmailSendFailed, EmailNotConfigured}"
    using demo_send_twice(2) by simp
  have d: "generate_verification_code [6, 5, 4, 3, 2, 1] \<noteq> generate_verification_code [1, 2, 3, 4, 5, 6]"
    by (simp add: generate_verification_code_def)
  from reissue_invalidates_first_code [OF i1 i2 j e j e jv ev c p t] d
  show ?thesis by simp
qed

text \<open>
  C7 as stated fails when the second draw repeats the first: both issuances succeed, and the
  verify with the first code yields Success.
\<close>

theorem reissue_invalidates_first_code_counterexample:
  "fst (send_code demo_config demo_send 100 0 [1, 2, 3, 4, 5, 6] SmtpOk demo_state) = CodeSent
   \<and> fst (send_code demo_config demo_send 200 100000000 [1, 2, 3, 4, 5, 6] SmtpOk
         (snd (send_code demo_config demo_send 100 0 [1, 2, 3, 4, 5, 6] SmtpOk demo_state))) = CodeSent
   \<and> fst (verify_code demo_config demo_verify 200000000
     (snd (send_code demo_config demo_send 200 100000000 [1, 2, 3, 4, 5, 6] SmtpOk
        (snd (send_code demo_config demo_send 100 0 [1, 2, 3, 4, 5, 6] SmtpOk demo_state)))))
   = VerifySuccess False"
  by (simp add: send_code_def verify_code_def check_rate_limit_def Let_def demo_send_def
        demo_verify_def demo_request_def demo_state_def demo_config_def dict_get_def strip_def
        is_space_def falsy_def get_client_ip_def generate_verification_code_def ten_minutes_def
        lower_def lower_char_def)

section \<open>The chat loop\<close>

lemma get_next_api_key_simps:
  "fst (get_next_api_key cfg s) = API_KEYS cfg ! ((current_key_index s + 1) mod length (API_KEYS cfg))"
  "snd (get_next_api_key cfg s)
     = s\<lparr>current_key_index := (current_key_index s + 1) mod length (API_KEYS cfg)\<rparr>"
  by (simp_all add: get_next_api_key_def Let_def)

lemma chat_loop_quota_step:
  assumes "attempt < length (API_KEYS cfg)"
    and "post (length sent) api_key message = HttpResponse 429 body"
  shows "chat_loop cfg post message attempt api_key sent s
           = chat_loop cfg post message (attempt + 1) (fst (get_next_api_key cfg s))
               (sent @ [api_key]) (snd (get_next_api_key cfg s))"
  by (subst chat_loop.simps) (simp add: assms)

lemma chat_loop_timeout_step:
  assumes "attempt + 1 < length (API_KEYS cfg)"
    and "post (length sent) api_key message = Timeout"
  shows "chat_loop cfg post message attempt api_key sent s
           = chat_loop cfg post message (attempt + 1) (fst (get_next_api_key cfg s))
               (sent @ [api_key]) (snd (get_next_api_key cfg s))"
  using assms by (subst chat_loop.simps) simp

lemma chat_loop_timeout_last:
  assumes "attempt + 1 = length (API_KEYS cfg)"
    and "post (length sent) api_key message = Timeout"
  shows "chat_loop cfg post message attempt api_key sent s = (ChatTimeout, sent @ [api_key], s)"
  using assms by (subst chat_loop.simps) auto

lemma chat_loop_success:
  assumes "attempt < length (API_KEYS cfg)"
    and "post (length sent) api_key message = HttpResponse 200 (Some ai_response)"
  shows "chat_loop cfg post message attempt api_key sent s
           = (ChatSuccess ai_response, sent @ [api_key], s)"
  using assms by (subst chat_loop.simps) simp

lemma chat_loop_exhausted:
  assumes "\<not> attempt < length (API_KEYS cfg)"
  shows "chat_loop cfg post message attempt api_key sent s = (ChatExhausted, sent, s)"
  using assms by (subst chat_loop.simps) simp

text \<open>
  A run of \<open>m\<close> requests that are all answered 429, from a cursor \<open>i\<close>: request \<open>j\<close>
  of the run uses the key at \<open>(i + j) mod N\<close>, and the loop goes on with the attempt count
  raised by \<open>m\<close> and the cursor at \<open>(i + m) mod N\<close>. The same for a run of timeouts that
  stays below the last attempt.
\<close>

lemma chat_loop_quota_run:
  assumes "current_key_index s < length (API_KEYS cfg)"
    and "attempt + m \<le> length (API_KEYS cfg)"
    and "\<forall>j<m. \<exists>body. post (length sent + j)
            (API_KEYS cfg ! ((current_key_index s + j) mod length (API_KEYS cfg))) message
              = HttpResponse 429 body"
  shows "chat_loop cfg post message attempt (API_KEYS cfg ! current_key_index s) sent s
           = chat_loop cfg post message (attempt + m)
               (API_KEYS cfg ! ((current_key_index s + m) mod length (API_KEYS cfg)))
               (sent @ map (\<lambda>j. API_KEYS cfg ! ((current_key_index s + j) mod length (API_KEYS cfg))) [0..<m])
               (s\<lparr>current_key_index := (current_key_index s + m) mod length (API_KEYS cfg)\<rparr>)"
  using assms(2,3)
proof (induction m)
  case 0
  show ?case using assms(1) by simp
next
  case (Suc m)
  let ?N = "length (API_KEYS cfg)"
  let ?i = "current_key_index s"
  let ?k = "\<lambda>j. API_KEYS cfg ! ((?i + j) mod ?N)"
  have run: "chat_loop cfg post message attempt (API_KEYS cfg ! ?i) sent s
      = chat_loop cfg post message (attempt + m) (?k m) (sent @ map ?k [0..<m])
          (s\<lparr>current_key_index := (?i + m) mod ?N\<rparr>)"
    using Suc by simp
  obtain body where q: "post (length sent + m) (?k m) message = HttpResponse 429 body"
    using Suc.prems(2) by blast
  have a: "attempt + m < ?N" using Suc.prems(1) by simp
  have l: "length (sent @ map ?k [0..<m]) = length sent + m" by simp
  have step: "chat_loop cfg post message (attempt + m) (?k m) (sent @ map ?k [0..<m])
          (s\<lparr>current_key_index := (?i + m) mod ?N\<rparr>)
      = chat_loop cfg post message (attempt + m + 1) (?k (Suc m)) ((sent @ map ?k [0..<m]) @ [?k m])
          (s\<lparr>current_key_index := (?i + Suc m) mod ?N\<rparr>)"
    using chat_loop_quota_step [OF a, of post "sent @ map ?k [0..<m]" "?k m" message body
        "s\<lparr>current_key_index := (?i + m) mod ?N\<rparr>"] q
    by (simp add: get_next_api_key_simps mod_simps)
  show ?case using run step by simp
qed

lemma chat_loop_timeout_run:
  assumes "current_key_index s < length (API_KEYS cfg)"
    and "attempt + m < length (API_KEYS cfg)"
    and "\<forall>j<m. post (length sent + j)
            (API_KEYS cfg ! ((current_key_index s + j) mod length (API_KEYS cfg))) message
              = Timeout"
  shows "chat_loop cfg post message attempt (API_KEYS cfg ! current_key_index s) sent s
           = chat_loop cfg post message (attempt + m)
               (API_KEYS cfg ! ((current_key_index s + m) mod length (API_KEYS cfg)))
               (sent @ map (\<lambda>j. API_KEYS cfg ! ((current_key_index s + j) mod length (API_KEYS cfg))) [0..<m])
               (s\<lparr>current_key_index := (current_key_index s + m) mod length (API_KEYS cfg)\<rparr>)"
  using assms(2,3)
proof (induction m)
  case 0
  show ?case using assms(1) by simp
next
  case (Suc m)
  let ?N = "length (API_KEYS cfg)"
  let ?i = "current_key_index s"
  let ?k = "\<lambda>j. API_KEYS cfg ! ((?i + j) mod ?N)"
  have run: "chat_loop cfg post message attempt (API_KEYS cfg ! ?i) sent s
      = chat_loop cfg post message (attempt + m) (?k m) (sent @ map ?k [0..<m])
          (s\<lparr>current_key_index := (?i + m) mod ?N\<rparr>)"
    using Suc by simp
  have q: "post (length sent + m) (?k m) message = Timeout"
    using Suc.prems(2) by blast
  have a: "attempt + m + 1 < ?N" using Suc.prems(1) by simp
  have step: "chat_loop cfg post message (attempt + m) (?k m) (sent @ map ?k [0..<m])
          (s\<lparr>current_key_index := (?i + m) mod ?N\<rparr>)
      = chat_loop cfg post message (attempt + m + 1) (?k (Suc m)) ((sent @ map ?k [0..<m]) @ [?k m])
          (s\<lparr>current_key_index := (?i + Suc m) mod ?N\<rparr>)"
    using chat_loop_timeout_step [OF a, of post "sent @ map ?k [0..<m]" "?k m" message
        "s\<lparr>current_key_index := (?i + m) mod ?N\<rparr>"] q
    by (simp add: get_next_api_key_simps mod_simps)
  show ?case using run step by simp
qed

text \<open>
  C1. With \<open>N\<close> credentials and the cursor at a valid index \<open>i\<close>, the \<open>j\<close>-th request
  of a chat uses the credential at \<open>(i + j) mod N\<close> as long as every request before it was
  answered with status 429: each such answer advances the rotator, increments the attempt
  count and retries. When all \<open>N\<close> requests are answered 429, the outcome is Exhausted
  (\<open>ChatExhausted\<close>, status 503) after exactly these \<open>N\<close> requests, and the cursor is
  back at \<open>i\<close>. When the first \<open>m < N\<close> requests are answered 429 and request \<open>m\<close>
  succeeds, the outcome is Succeeded with that request's payload, after \<open>m + 1\<close> requests.
\<close>

theorem chat_quota_failover:
  assumes "current_key_index s < length (API_KEYS cfg)"
  shows "((\<forall>j<length (API_KEYS cfg). \<exists>body.
             post j (API_KEYS cfg ! ((current_key_index s + j) mod length (API_KEYS cfg))) message
               = HttpResponse 429 body) \<longrightarrow>
          chat_orchestrate cfg post message s
            = (ChatExhausted,
               map (\<lambda>j. API_KEYS cfg ! ((current_key_index s + j) mod length (API_KEYS cfg)))
                 [0..<length (API_KEYS cfg)],
               s))
       \<and> (m < length (API_KEYS cfg)
          \<and> (\<forall>j<m. \<exists>body.
             post j (API_KEYS cfg ! ((current_key_index s + j) mod length (API_KEYS cfg))) message
               = HttpResponse 429 body)
          \<and> post m (API_KEYS cfg ! ((current_key_index s + m) mod length (API_KEYS cfg))) message
               = HttpResponse 200 (Some payload) \<longrightarrow>
          chat_orchestrate cfg post message s
            = (ChatSuccess payload,
               map (\<lambda>j. API_KEYS cfg ! ((current_key_index s + j) mod length (API_KEYS cfg)))
                 [0..<Suc m],
               s\<lparr>current_key_index := (current_key_index s + m) mod length (API_KEYS cfg)\<rparr>))"
proof (intro conjI impI)
  let ?N = "length (API_KEYS cfg)"
  let ?i = "current_key_index s"
  let ?k = "\<lambda>j. API_KEYS cfg ! ((?i + j) mod ?N)"
  assume all: "\<forall>j<?N. \<exists>body. post j (?k j) message = HttpResponse 429 body"
  have same: "s\<lparr>current_key_index := (?i + ?N) mod ?N\<rparr> = s" using assms by simp
  have "chat_orchestrate cfg post message s
      = chat_loop cfg post message (0 + ?N) (?k ?N) ([] @ map ?k [0..<?N])
          (s\<lparr>current_key_index := (?i + ?N) mod ?N\<rparr>)"
    unfolding chat_orchestrate_def
    using all by (intro chat_loop_quota_run [OF assms]) simp_all
  also have "\<dots> = (ChatExhausted, map ?k [0..<?N], s)"
    using same by (simp add: chat_loop_exhausted)
  finally show "chat_orchestrate cfg post message s = (ChatExhausted, map ?k [0..<?N], s)" .
next
  let ?N = "length (API_KEYS cfg)"
  let ?i = "current_key_index s"
  let ?k = "\<lambda>j. API_KEYS cfg ! ((?i + j) mod ?N)"
  assume h: "m < ?N \<and> (\<forall>j<m. \<exists>body. post j (?k j) message = HttpResponse 429 body)
          \<and> post m (?k m) message = HttpResponse 200 (Some payload)"
  have "chat_orchestrate cfg post message s
      = chat_loop cfg post message (0 + m) (?k m) ([] @ map ?k [0..<m])
          (s\<lparr>current_key_index := (?i + m) mod ?N\<rparr>)"
    unfolding chat_orchestrate_def
    using h by (intro chat_loop_quota_run [OF assms]) simp_all
  also have "\<dots> = (ChatSuccess payload, map ?k [0..<m] @ [?k m],
                     s\<lparr>current_key_index := (?i + m) mod ?N\<rparr>)"
    using h chat_loop_success [of m cfg post "map ?k [0..<m]" "?k m" message payload]
    by simp
  finally show "chat_orchestrate cfg post message s
      = (ChatSuccess payload, map ?k [0..<Suc m], s\<lparr>current_key_index := (?i + m) mod ?N\<rparr>)"
    by simp
qed

text \<open>
  C4, as amended. A timeout on an attempt that is not the last one is handled as a 429 is:
  the rotator advances, the attempt count goes up and the loop retries. When every request
  times out, exactly \<open>N\<close> requests are made, the rotator has advanced \<open>N - 1\<close> times, and
  the outcome is the timeout failure (\<open>ChatTimeout\<close>, status 500), which is not the
  outcome of \<open>N\<close> answers with status 429.
\<close>

theorem chat_timeout_failover:
  assumes "current_key_index s < length (API_KEYS cfg)"
  shows "(attempt + 1 < length (API_KEYS cfg) \<and> post (length sent) api_key message = Timeout \<longrightarrow>
          chat_loop cfg post message attempt api_key sent s
            = chat_loop cfg post message (attempt + 1) (fst (get_next_api_key cfg s))
                (sent @ [api_key]) (snd (get_next_api_key cfg s)))
       \<and> ((\<forall>j<length (API_KEYS cfg).
             post j (API_KEYS cfg ! ((current_key_index s + j) mod length (API_KEYS cfg))) message
               = Timeout) \<longrightarrow>
          chat_orchestrate cfg post message s
            = (ChatTimeout,
               map (\<lambda>j. API_KEYS cfg ! ((current_key_index s + j) mod length (API_KEYS cfg)))
                 [0..<length (API_KEYS cfg)],
               s\<lparr>current_key_index :=
                   (current_key_index s + (length (API_KEYS cfg) - 1)) mod length (API_KEYS cfg)\<rparr>))"
proof (intro conjI impI)
  assume "attempt + 1 < length (API_KEYS cfg) \<and> post (length sent) api_key message = Timeout"
  then show "chat_loop cfg post message attempt api_key sent s
            = chat_loop cfg post message (attempt + 1) (fst (get_next_api_key cfg s))
                (sent @ [api_key]) (snd (get_next_api_key cfg s))"
    by (simp add: chat_loop_timeout_step)
next
  let ?N = "length (API_KEYS cfg)"
  let ?i = "current_key_index s"
  let ?k = "\<lambda>j. API_KEYS cfg ! ((?i + j) mod ?N)"
  assume all: "\<forall>j<?N. post j (?k j) message = Timeout"
  obtain p where p: "?N = Suc p" using assms by (cases ?N) simp_all
  have run: "chat_loop cfg post message 0 (API_KEYS cfg ! ?i) [] s
      = chat_loop cfg post message (0 + p) (?k p) ([] @ map ?k [0..<p])
          (s\<lparr>current_key_index := (?i + p) mod ?N\<rparr>)"
  proof (rule chat_loop_timeout_run [OF assms])
    show "0 + p < ?N" using p by simp
    show "\<forall>j<p. post (length [] + j) (?k j) message = Timeout" using all p by simp
  qed
  have q: "post (length (map ?k [0..<p])) (?k p) message = Timeout" using all p by simp
  have a: "p + 1 = ?N" using p by simp
  have last: "chat_loop cfg post message p (?k p) (map ?k [0..<p])
          (s\<lparr>current_key_index := (?i + p) mod ?N\<rparr>)
      = (ChatTimeout, map ?k [0..<p] @ [?k p], s\<lparr>current_key_index := (?i + p) mod ?N\<rparr>)"
    using chat_loop_timeout_last [of p cfg post "map ?k [0..<p]" "?k p" message
        "s\<lparr>current_key_index := (?i + p) mod ?N\<rparr>"] a q
    by blast
  have m: "map ?k [0..<p] @ [?k p] = map ?k [0..<Suc p]" by simp
  have "chat_orchestrate cfg post message s
      = chat_loop cfg post message 0 (API_KEYS cfg ! ?i) [] s"
    by (simp only: chat_orchestrate_def)
  also have "\<dots> = chat_loop cfg post message p (?k p) (map ?k [0..<p])
          (s\<lparr>current_key_index := (?i + p) mod ?N\<rparr>)"
    using run by (simp only: append_Nil add_0)
  also have "\<dots> = (ChatTimeout, map ?k [0..<p] @ [?k p],
          s\<lparr>current_key_index := (?i + p) mod ?N\<rparr>)"
    by (rule last)
  finally have "chat_orchestrate cfg post message s
      = (ChatTimeout, map ?k [0..<Suc p], s\<lparr>current_key_index := (?i + p) mod ?N\<rparr>)"
    using m by (simp only:)
  moreover have "?N - 1 = p" using p by simp
  ultimately show "chat_orchestrate cfg post message s
      = (ChatTimeout, map ?k [0..<?N], s\<lparr>current_key_index := (?i + (?N - 1)) mod ?N\<rparr>)"
    using p by simp
qed

theorem chat_quota_failover_witness:
  "chat_orchestrate demo_config demo_post ''hi'' demo_state
     = (ChatSuccess ''hello'', [''K1'', ''K2'', ''K3''], demo_state\<lparr>current_key_index := 2\<rparr>)
   \<and> chat_orchestrate demo_config2 demo_post ''hi'' demo_state
     = (ChatExhausted, [''K1'', ''K2''], demo_state)"
proof -
  have i: "current_key_index demo_state < length (API_KEYS demo_config)"
    and i2: "current_key_index demo_state < length (API_KEYS demo_config2)"
    by (simp_all add: demo_state_def demo_config_def demo_config2_def)
  have u: "[0..<3] = [0, 1, 2]" "[0..<2] = [0, 1]"
    by (simp_all add: upt_rec)
  have a: "(2::nat) < length (API_KEYS demo_config)
      \<and> (\<forall>j<2. \<exists>body. demo_post j (API_KEYS demo_config
              ! ((current_key_index demo_state + j) mod length (API_KEYS demo_config))) ''hi''
            = HttpResponse 429 body)
      \<and> demo_post 2 (API_KEYS demo_config
              ! ((current_key_index demo_state + 2) mod length (API_KEYS demo_config))) ''hi''
            = HttpResponse 200 (Some ''hello'')"
    by (simp add: demo_state_def demo_config_def demo_post_def less_Suc_eq numeral_2_eq_2)
  have b: "\<forall>j<length (API_KEYS demo_config2). \<exists>body.
       demo_post j (API_KEYS demo_config2
           ! ((current_key_index demo_state + j) mod length (API_KEYS demo_config2))) ''hi''
         = HttpResponse 429 body"
    by (simp add: demo_state_def demo_config_def demo_config2_def demo_post_def less_Suc_eq)
  have m: "map (\<lambda>j. API_KEYS demo_config
        ! ((current_key_index demo_state + j) mod length (API_KEYS demo_config))) [0..<Suc 2]
      = [''K1'', ''K2'', ''K3'']"
    "(current_key_index demo_state + 2) mod length (API_KEYS demo_config) = 2"
    by (simp_all add: demo_state_def demo_config_def upt_rec)
  have m2: "map (\<lambda>j. API_KEYS demo_config2
        ! ((current_key_index demo_state + j) mod length (API_KEYS demo_config2)))
          [0..<length (API_KEYS demo_config2)]
      = [''K1'', ''K2'']"
    by (simp add: demo_state_def demo_config_def demo_config2_def upt_rec)
  from chat_quota_failover [OF i, of demo_post "''hi''" 2 "''hello''"] a m
  have A: "chat_orchestrate demo_config demo_post ''hi'' demo_state
     = (ChatSuccess ''hello'', [''K1'', ''K2'', ''K3''], demo_state\<lparr>current_key_index := 2\<rparr>)"
    by simp
  from chat_quota_failover [OF i2, of demo_post "''hi''" 0 "''hello''"] b m2
  have B: "chat_orchestrate demo_config2 demo_post ''hi'' demo_state
     = (ChatExhausted, [''K1'', ''K2''], demo_state)"
    by simp
  from A B show ?thesis by simp
qed

theorem chat_timeout_failover_witness:
  "chat_orchestrate demo_config2 demo_post_timeout ''hi'' demo_state
     = (ChatTimeout, [''K1'', ''K2''], demo_state\<lparr>current_key_index := 1\<rparr>)"
proof -
  have i2: "current_key_index demo_state < length (API_KEYS demo_config2)"
    by (simp add: demo_state_def demo_config_def demo_config2_def)
  have b: "\<forall>j<length (API_KEYS demo_config2).
       demo_post_timeout j (API_KEYS demo_config2
           ! ((current_key_index demo_state + j) mod length (API_KEYS demo_config2))) ''hi''
         = Timeout"
    by (simp add: demo_post_timeout_def)
  have m2: "map (\<lambda>j. API_KEYS demo_config2
        ! ((current_key_index demo_state + j) mod length (API_KEYS demo_config2)))
          [0..<length (API_KEYS demo_config2)]
      = [''K1'', ''K2'']"
    "(current_key_index demo_state + (length (API_KEYS demo_config2) - 1))
        mod length (API_KEYS demo_config2) = 1"
    by (simp_all add: demo_state_def demo_config_def demo_config2_def upt_rec)
  from chat_timeout_failover [OF i2, of 0 demo_post_timeout "[]" "''K1''" "''hi''"] b m2
  show ?thesis by simp
qed

text \<open>
  C4 as stated fails in its last part: with two credentials and a timeout on every request
  the outcome is the timeout failure with status 500, while two answers with status 429
  give the exhausted outcome with status 503.
\<close>

theorem chat_timeout_failover_counterexample:
  "fst (chat_orchestrate demo_config2 demo_post_timeout ''hi'' demo_state) = ChatTimeout
   \<and> fst (chat_orchestrate demo_config2 demo_post ''hi'' demo_state) = ChatExhausted
   \<and> status_code ChatTimeout = 500 \<and> status_code ChatExhausted = 503"
  by (simp add: chat_orchestrate_def chat_loop.simps demo_config2_def demo_config_def
        demo_state_def demo_post_def demo_post_timeout_def get_next_api_key_def Let_def)

section \<open>The error sanitizer\<close>

lemma str_replace_Nil: "old \<noteq> [] \<Longrightarrow> str_replace old new [] = []"
  by (subst str_replace.simps) simp

lemma str_replace_match:
  "old \<noteq> [] \<Longrightarrow> s \<noteq> [] \<Longrightarrow> prefix old s \<Longrightarrow>
     str_replace old new s = new @ str_replace old new (drop (length old) s)"
  by (subst str_replace.simps) simp

lemma str_replace_skip:
  "old \<noteq> [] \<Longrightarrow> s \<noteq> [] \<Longrightarrow> \<not> prefix old s \<Longrightarrow>
     str_replace old new s = hd s # str_replace old new (tl s)"
  by (subst str_replace.simps) simp

lemma sublist_sep:
  assumes "a \<notin> set c"
  shows "sublist c (xs @ a # ys) \<longleftrightarrow> sublist c xs \<or> sublist c ys"
proof
  assume "sublist c (xs @ a # ys)"
  then consider "sublist c xs" | "sublist c (a # ys)"
    | c1 c2 where "c = c1 @ c2" "suffix c1 xs" "prefix c2 (a # ys)"
    by (auto simp add: sublist_append)
  then show "sublist c xs \<or> sublist c ys"
  proof cases
    case 1
    then show ?thesis by simp
  next
    case 2
    then have "prefix c (a # ys) \<or> sublist c ys" by (simp add: sublist_Cons_right)
    moreover have "c = []" if "prefix c (a # ys)"
      using that assms by (cases c) auto
    ultimately show ?thesis by auto
  next
    case 3
    have "c2 = []" using 3(1,3) assms by (cases c2) auto
    then show ?thesis using 3(1,2) by auto
  qed
next
  assume "sublist c xs \<or> sublist c ys"
  then show "sublist c (xs @ a # ys)"
  proof
    assume "sublist c xs"
    then show ?thesis by (simp add: sublist_append)
  next
    assume "sublist c ys"
    then have "sublist c (a # ys)" by (simp add: sublist_Cons_right)
    then show ?thesis by (simp add: sublist_append)
  qed
qed

lemma sublist_HIDDEN_append:
  assumes "CHR ''*'' \<notin> set c" and "sublist c (HIDDEN @ r)"
  shows "sublist c ''HIDDEN'' \<or> sublist c r"
proof -
  have e: "HIDDEN @ r = [] @ CHR ''*'' # ([] @ CHR ''*'' # ([] @ CHR ''*'' #
      (''HIDDEN'' @ CHR ''*'' # ([] @ CHR ''*'' # ([] @ CHR ''*'' # r)))))"
    by (simp add: HIDDEN_def)
  have "sublist c [] \<or> sublist c ''HIDDEN'' \<or> sublist c r"
    using assms(2) unfolding e sublist_sep [OF assms(1)] by blast
  then show ?thesis by auto
qed

lemma prefix_str_replace:
  assumes "old \<noteq> []" and "CHR ''*'' \<notin> set c"
    and "prefix c (str_replace old HIDDEN s)"
  shows "prefix c s"
  using assms(3,2)
proof (induction s arbitrary: c rule: length_induct)
  case (1 s)
  show ?case
  proof (cases "s = []")
    case True
    then show ?thesis using "1.prems" assms(1) by (simp add: str_replace_Nil)
  next
    case False
    show ?thesis
    proof (cases "prefix old s")
      case True
      then have "prefix c (CHR ''*'' # tl HIDDEN @ str_replace old HIDDEN (drop (length old) s))"
        using "1.prems"(1) assms(1) False by (simp add: str_replace_match HIDDEN_def)
      then have "c = []" using "1.prems"(2) by (cases c) auto
      then show ?thesis by simp
    next
      case np: False
      then have p: "prefix c (hd s # str_replace old HIDDEN (tl s))"
        using "1.prems"(1) assms(1) False by (simp add: str_replace_skip)
      show ?thesis
      proof (cases c)
        case Nil
        then show ?thesis by simp
      next
        case (Cons x c')
        then have h: "x = hd s" and p': "prefix c' (str_replace old HIDDEN (tl s))"
          using p by auto
        have "length (tl s) < length s" using False by (cases s) auto
        moreover have "CHR ''*'' \<notin> set c'" using "1.prems"(2) Cons by simp
        ultimately have "prefix c' (tl s)" using "1.IH" p' by blast
        then show ?thesis using Cons h False by (cases s) auto
      qed
    qed
  qed
qed

lemma sublist_str_replace:
  assumes "old \<noteq> []" and "CHR ''*'' \<notin> set c" and "\<not> sublist c ''HIDDEN''"
    and "sublist c (str_replace old HIDDEN s)"
  shows "sublist c s"
  using assms(4)
proof (induction s rule: length_induct)
  case (1 s)
  show ?case
  proof (cases "s = []")
    case True
    then show ?thesis using "1.prems" assms(1) by (simp add: str_replace_Nil)
  next
    case False
    show ?thesis
    proof (cases "prefix old s")
      case True
      then have "sublist c (HIDDEN @ str_replace old HIDDEN (drop (length old) s))"
        using "1.prems" assms(1) False by (simp add: str_replace_match)
      then have r: "sublist c (str_replace old HIDDEN (drop (length old) s))"
        using sublist_HIDDEN_append [OF assms(2)] assms(3) by blast
      have "length (drop (length old) s) < length s" using False assms(1) by simp
      then have "sublist c (drop (length old) s)" using "1.IH" r by blast
      then show ?thesis using sublist_drop sublist_order.order_trans by blast
    next
      case np: False
      then have "sublist c (hd s # str_replace old HIDDEN (tl s))"
        using "1.prems" assms(1) False by (simp add: str_replace_skip)
      then consider "prefix c (hd s # str_replace old HIDDEN (tl s))"
        | "sublist c (str_replace old HIDDEN (tl s))"
        by (auto simp add: sublist_Cons_right)
      then show ?thesis
      proof cases
        case 1
        then have "prefix c (str_replace old HIDDEN s)"
          using assms(1) False np by (simp add: str_replace_skip)
        then have "prefix c s" using prefix_str_replace [OF assms(1,2)] by blast
        then show ?thesis by simp
      next
        case 2
        have "length (tl s) < length s" using False by (cases s) auto
        then have "sublist c (tl s)" using "1.IH" 2 by blast
        then show ?thesis using False by (cases s) (auto simp add: sublist_Cons_right)
      qed
    qed
  qed
qed

lemma str_replace_removes:
  assumes "CHR ''*'' \<notin> set old" and "\<not> sublist old ''HIDDEN''"
  shows "\<not> sublist old (str_replace old HIDDEN s)"
proof -
  have ne: "old \<noteq> []" using assms(2) by auto
  show ?thesis
  proof (induction s rule: length_induct)
    case (1 s)
    show ?case
    proof (cases "s = []")
      case True
      then show ?thesis using ne by (simp add: str_replace_Nil)
    next
      case False
      show ?thesis
      proof (cases "prefix old s")
        case True
        have "length (drop (length old) s) < length s" using False ne by simp
        then have "\<not> sublist old (str_replace old HIDDEN (drop (length old) s))"
          using "1.IH" by blast
        then have "\<not> sublist old (HIDDEN @ str_replace old HIDDEN (drop (length old) s))"
          using sublist_HIDDEN_append [OF assms(1)] assms(2) by blast
        then show ?thesis using True False ne by (simp add: str_replace_match)
      next
        case np: False
        have "length (tl s) < length s" using False by (cases s) auto
        then have r: "\<not> sublist old (str_replace old HIDDEN (tl s))" using "1.IH" by blast
        have "\<not> prefix old (str_replace old HIDDEN s)"
          using prefix_str_replace [OF ne assms(1)] np by blast
        then have "\<not> prefix old (hd s # str_replace old HIDDEN (tl s))"
          using ne False np by (simp add: str_replace_skip)
        then have "\<not> sublist old (hd s # str_replace old HIDDEN (tl s))"
          using r by (simp add: sublist_Cons_right)
        then show ?thesis using ne False np by (simp add: str_replace_skip)
      qed
    qed
  qed
qed

lemma str_replace_empty:
  "str_replace [] new s = new @ concat (map (\<lambda>c. c # new) s)"
  by (subst str_replace.simps) simp

lemma sublist_interleave_HIDDEN:
  assumes "CHR ''*'' \<notin> set c" and "\<not> sublist c ''HIDDEN''"
    and "sublist c (concat (map (\<lambda>x. x # HIDDEN) s))"
  shows "sublist c s"
  using assms(3)
proof (induction s)
  case Nil
  then show ?case by simp
next
  case (Cons x s)
  then have "sublist c (x # (HIDDEN @ concat (map (\<lambda>x. x # HIDDEN) s)))" by simp
  then consider "prefix c (x # (HIDDEN @ concat (map (\<lambda>x. x # HIDDEN) s)))"
    | "sublist c (HIDDEN @ concat (map (\<lambda>x. x # HIDDEN) s))"
    by (auto simp add: sublist_Cons_right)
  then show ?case
  proof cases
    case 1
    show ?thesis
    proof (cases c)
      case Nil
      then show ?thesis by simp
    next
      case (Cons y c')
      then have y: "y = x"
        and p: "prefix c' (CHR ''*'' # tl HIDDEN @ concat (map (\<lambda>x. x # HIDDEN) s))"
        using 1 by (auto simp add: HIDDEN_def)
      have "c' = []" using p assms(1) Cons by (cases c') auto
      then have "prefix c (x # s)" using Cons y by simp
      then show ?thesis by (rule prefix_imp_sublist)
    qed
  next
    case 2
    then have "sublist c (concat (map (\<lambda>x. x # HIDDEN) s))"
      using sublist_HIDDEN_append [OF assms(1)] assms(2) by blast
    then have "sublist c s" using Cons.IH by blast
    then show ?thesis by (simp add: sublist_Cons_right)
  qed
qed

lemma sublist_str_replace_any:
  assumes "CHR ''*'' \<notin> set c" and "\<not> sublist c ''HIDDEN''"
    and "sublist c (str_replace old HIDDEN s)"
  shows "sublist c s"
proof (cases "old = []")
  case True
  then have "sublist c (HIDDEN @ concat (map (\<lambda>x. x # HIDDEN) s))"
    using assms(3) by (simp add: str_replace_empty)
  then have "sublist c (concat (map (\<lambda>x. x # HIDDEN) s))"
    using sublist_HIDDEN_append [OF assms(1)] assms(2) by blast
  then show ?thesis by (rule sublist_interleave_HIDDEN [OF assms(1,2)])
next
  case False
  then show ?thesis using sublist_str_replace [OF False assms(1,2,3)] by simp
qed

lemma fold_str_replace_keeps_out:
  assumes "CHR ''*'' \<notin> set c" and "\<not> sublist c ''HIDDEN''"
    and "c \<in> set keys \<or> \<not> sublist c e"
  shows "\<not> sublist c (fold (\<lambda>key e. str_replace key HIDDEN e) keys e)"
  using assms(3)
proof (induction keys arbitrary: e)
  case Nil
  then show ?case by simp
next
  case (Cons k ks)
  have "c \<in> set ks \<or> \<not> sublist c (str_replace k HIDDEN e)"
  proof (cases "c = k")
    case True
    then show ?thesis using str_replace_removes [OF assms(1,2)] by simp
  next
    case False
    then have "c \<in> set ks \<or> \<not> sublist c e" using Cons.prems by auto
    then show ?thesis using sublist_str_replace_any [OF assms(1,2)] by blast
  qed
  then show ?case using Cons.IH by simp
qed

text \<open>
  Where the sanitizer does remove a credential: an API key of the list, or the Gmail app
  password, that has no \<open>*\<close> in it and is not a part of the word \<open>HIDDEN\<close> does not
  occur in the output, whatever the input and the other credentials are.
\<close>

lemma sanitize_error_message_redacts_credential:
  assumes "c \<in> set (API_KEYS cfg) \<union> set_option (GMAIL_APP_PASSWORD cfg)"
    and "CHR ''*'' \<notin> set c" and "\<not> sublist c ''HIDDEN''"
  shows "\<not> sublist c (sanitize_error_message cfg error)"
proof -
  let ?e = "fold (\<lambda>key e. str_replace key HIDDEN e) (API_KEYS cfg) error"
  have keys: "\<not> sublist c ?e" if "c \<in> set (API_KEYS cfg)"
    using fold_str_replace_keeps_out [OF assms(2,3)] that by blast
  show ?thesis
  proof (cases "GMAIL_APP_PASSWORD cfg")
    case None
    then show ?thesis using assms(1) keys by (simp add: sanitize_error_message_def)
  next
    case (Some pw)
    show ?thesis
    proof (cases "pw = []")
      case True
      then have "c \<in> set (API_KEYS cfg)" using assms(1,3) Some by auto
      then show ?thesis using keys Some True by (simp add: sanitize_error_message_def)
    next
      case False
      have "\<not> sublist c (str_replace pw HIDDEN ?e)"
      proof (cases "c = pw")
        case True
        then show ?thesis using str_replace_removes [OF assms(2,3)] by simp
      next
        case ne: False
        then have "c \<in> set (API_KEYS cfg)" using assms(1) Some by simp
        then show ?thesis using keys sublist_str_replace_any [OF assms(2,3)] by blast
      qed
      then show ?thesis using Some False by (simp add: sanitize_error_message_def)
    qed
  qed
qed

lemma demo_sanitized:
  "sanitize_error_message demo_config ''401 key=K2 pw'' = ''401 key=***HIDDEN*** ***HIDDEN***''"
  by (simp add: sanitize_error_message_def demo_config_def HIDDEN_def str_replace.simps)

text \<open>
  C3. The claim is that for every input the output of \<open>sanitize_error_message\<close> contains
  no API key of the loaded list and not the Gmail app password, every credential in the
  text being replaced with the marker; the comments of the function announce this (lines
  157 and 161). The code does not do it for every credential. With the keys \<open>a*\<close> and
  \<open>DEN\<close> the input \<open>aa* DEN\<close> comes back with both keys in it: the marker put in for
  one occurrence forms the key \<open>a*\<close> again with the character before it, and the
  marker's own word contains \<open>DEN\<close>. With the keys \<open>X\<close> and \<open>secretXkey\<close> the
  occurrence of the second key is not replaced with the marker: the replacement for the
  first key breaks it, and the rest of the key stays in the output.
\<close>

theorem sanitize_error_message_leaks:
  "''a*'' \<in> set (API_KEYS demo_config_star)
   \<and> ''DEN'' \<in> set (API_KEYS demo_config_star)
   \<and> sanitize_error_message demo_config_star ''aa* DEN'' = ''a***HID***HIDDEN****** ***HIDDEN***''
   \<and> sublist ''a*'' (sanitize_error_message demo_config_star ''aa* DEN'')
   \<and> sublist ''DEN'' (sanitize_error_message demo_config_star ''aa* DEN'')
   \<and> ''secretXkey'' \<in> set (API_KEYS demo_config_nested)
   \<and> sanitize_error_message demo_config_nested ''401 key=secretXkey''
        = ''401 key=secret***HIDDEN***key''"
proof -
  have e: "sanitize_error_message demo_config_star ''aa* DEN''
      = ''a***HID***HIDDEN****** ***HIDDEN***''"
    by (simp add: sanitize_error_message_def demo_config_star_def demo_config_def HIDDEN_def
          str_replace.simps)
  have n: "sanitize_error_message demo_config_nested ''401 key=secretXkey''
        = ''401 key=secret***HIDDEN***key''"
    by (simp add: sanitize_error_message_def demo_config_nested_def demo_config_def HIDDEN_def
          str_replace.simps)
  show ?thesis unfolding e n
    by (simp add: demo_config_star_def demo_config_nested_def demo_config_def sublist_Cons_right)
qed

end
